theory Spec2Isabelle
  imports Main "HOL-Library.Word" "HOL-Library.AList" "HOL-Library.Sublist"
begin

section \<open>TCP connection engine (connection.py)\<close>

subsection \<open>Data model\<close>

type_synonym byte = "8 word"
type_synonym bytes = "byte list"

text \<open>
  The socket is the environment. A \<open>StreamWriter\<close> is modelled by the chunks it has
  accepted so far (\<open>wire\<close>) and by the outcomes of the coming \<open>write\<close>/\<open>drain\<close>
  calls (\<open>pending\<close>; once the list is used up every further call succeeds). A call either
  succeeds, raises an I/O error (an \<open>Exception\<close>), or is cancelled (\<open>CancelledError\<close>,
  which \<open>except Exception\<close> does not catch).
\<close>

datatype io_outcome = Io_ok | Io_error | Io_cancelled

record writer =
  wire :: "bytes list"
  pending :: "io_outcome list"

text \<open>What one \<open>await self.reader.read(4096)\<close> gives back.\<close>

datatype read_result = Read_data bytes | Read_error | Read_cancelled

text \<open>
  \<open>self.triggers\<close> is a Python dict from pattern to (trigger id, response); a dict keeps
  insertion order and an assignment to an existing key keeps the key's position, which is
  \<open>AList.update\<close> on an association list.
\<close>

type_synonym trigger = "string \<times> string \<times> bytes"

record connection =
  connection_id :: string
  host :: string
  port :: int
  reader :: bool
  writer :: "writer option"
  buffer :: "bytes list"
  triggers :: "trigger list"
  connected :: bool
  bytes_sent :: int
  bytes_received :: int
  read_task :: bool

definition init :: "string \<Rightarrow> string \<Rightarrow> int \<Rightarrow> connection" where
  "init cid h p =
     \<lparr>connection_id = cid, host = h, port = p, reader = False, writer = None,
      buffer = [], triggers = [], connected = False, bytes_sent = 0,
      bytes_received = 0, read_task = False\<rparr>"

subsection \<open>connect, disconnect, send\<close>

text \<open>
  \<open>connect\<close>: the argument is what \<open>asyncio.open_connection\<close> gives, \<open>None\<close> when it
  raises. The result is the returned boolean and the new state.
\<close>

definition connect :: "connection \<Rightarrow> writer option \<Rightarrow> bool \<times> connection" where
  "connect c opened =
     (case opened of
        Some w \<Rightarrow> (True, c\<lparr>reader := True, writer := Some w, connected := True, read_task := True\<rparr>)
      | None \<Rightarrow> (False, c\<lparr>connected := False\<rparr>))"

definition disconnect :: "connection \<Rightarrow> connection" where
  "disconnect c = c\<lparr>connected := False, reader := False, writer := None\<rparr>"

text \<open>
  \<open>send\<close> either returns a boolean or lets a \<open>CancelledError\<close> through. On an I/O error
  the chunk is not counted as delivered.
\<close>

datatype send_result = Returned bool connection | Cancelled connection

definition next_outcome :: "writer \<Rightarrow> io_outcome" where
  "next_outcome w = (case pending w of [] \<Rightarrow> Io_ok | r # _ \<Rightarrow> r)"

definition send :: "connection \<Rightarrow> bytes \<Rightarrow> send_result" where
  "send c data =
     (if \<not> connected c then Returned False c
      else case writer c of
        None \<Rightarrow> Returned False c
      | Some w \<Rightarrow>
          (case next_outcome w of
             Io_ok \<Rightarrow>
               Returned True
                 (c\<lparr>writer := Some (w\<lparr>wire := wire w @ [data], pending := tl (pending w)\<rparr>),
                    bytes_sent := bytes_sent c + int (length data)\<rparr>)
           | Io_error \<Rightarrow>
               Returned False
                 (c\<lparr>writer := Some (w\<lparr>pending := tl (pending w)\<rparr>), connected := False\<rparr>)
           | Io_cancelled \<Rightarrow>
               Cancelled (c\<lparr>writer := Some (w\<lparr>pending := tl (pending w)\<rparr>)\<rparr>)))"

subsection \<open>Trigger evaluation\<close>

text \<open>
  \<open>re.search(pattern, data.decode('utf-8', errors='ignore'))\<close> is a parameter of the model:
  \<open>Some b\<close> is the truth value of the match object, \<open>None\<close> is a raised \<open>re.error\<close>
  (the lossy decode itself cannot raise).
\<close>

type_synonym searcher = "string \<Rightarrow> bytes \<Rightarrow> bool option"

text \<open>
  The \<open>for\<close> loop of \<open>_check_triggers\<close> over \<open>self.triggers.items()\<close>. The \<open>try\<close>
  encloses the whole loop, so an exception of \<open>re.search\<close> leaves the loop.
\<close>

datatype loop_result = Completed connection | Raised connection | Loop_cancelled connection

fun dispatch :: "searcher \<Rightarrow> bytes \<Rightarrow> trigger list \<Rightarrow> connection \<Rightarrow> loop_result" where
  "dispatch search data [] c = Completed c"
| "dispatch search data ((pattern, trigger_id, response) # ts) c =
     (case search pattern data of
        None \<Rightarrow> Raised c
      | Some False \<Rightarrow> dispatch search data ts c
      | Some True \<Rightarrow>
          (case send c response of
             Returned _ c' \<Rightarrow> dispatch search data ts c'
           | Cancelled c' \<Rightarrow> Loop_cancelled c'))"

datatype check_result = Checked connection | Check_cancelled connection

definition check_triggers :: "searcher \<Rightarrow> connection \<Rightarrow> bytes \<Rightarrow> check_result" where
  "check_triggers search c data =
     (case dispatch search data (triggers c) c of
        Completed c' \<Rightarrow> Checked c'
      | Raised c' \<Rightarrow> Checked c'
      | Loop_cancelled c' \<Rightarrow> Check_cancelled c')"

subsection \<open>The receive loop\<close>

text \<open>
  One pass through the body of \<open>while self.connected and self.reader\<close>, given the result
  of the read. The boolean says whether the loop goes on.
\<close>

definition read_loop_iter :: "searcher \<Rightarrow> connection \<Rightarrow> read_result \<Rightarrow> bool \<times> connection" where
  "read_loop_iter search c r =
     (if \<not> (connected c \<and> reader c) then (False, c)
      else case r of
        Read_cancelled \<Rightarrow> (False, c)
      | Read_error \<Rightarrow> (False, c\<lparr>connected := False\<rparr>)
      | Read_data data \<Rightarrow>
          if data = [] then (False, c\<lparr>connected := False\<rparr>)
          else
            (let c1 = c\<lparr>buffer := buffer c @ [data],
                        bytes_received := bytes_received c + int (length data)\<rparr>
             in case check_triggers search c1 data of
                  Checked c2 \<Rightarrow> (True, c2)
                | Check_cancelled c2 \<Rightarrow> (False, c2)))"

text \<open>The loop over the reads that complete; when they are used up the loop is parked in \<open>read\<close>.\<close>

fun read_loop :: "searcher \<Rightarrow> connection \<Rightarrow> read_result list \<Rightarrow> connection" where
  "read_loop search c [] = c"
| "read_loop search c (r # rs) =
     (case read_loop_iter search c r of
        (True, c') \<Rightarrow> read_loop search c' rs
      | (False, c') \<Rightarrow> c')"

subsection \<open>Buffer operations\<close>

text \<open>Python's \<open>xs[start:stop]\<close> (\<open>stop = None\<close> for \<open>xs[start:]\<close>), negative indices included.\<close>

definition slice_bound :: "int \<Rightarrow> int \<Rightarrow> int" where
  "slice_bound n i = (if i < 0 then max (i + n) 0 else min i n)"

definition py_slice :: "'a list \<Rightarrow> int \<Rightarrow> int option \<Rightarrow> 'a list" where
  "py_slice xs start stop =
     (let n = int (length xs);
          lo = slice_bound n start;
          hi = (case stop of None \<Rightarrow> n | Some s \<Rightarrow> slice_bound n s)
      in if lo < hi then take (nat (hi - lo)) (drop (nat lo) xs) else [])"

definition read_buffer :: "connection \<Rightarrow> int option \<Rightarrow> int option \<Rightarrow> bytes list" where
  "read_buffer c index count =
     (case index of
        None \<Rightarrow> buffer c
      | Some i \<Rightarrow>
          (case count of
             None \<Rightarrow> if i < int (length (buffer c)) then py_slice (buffer c) i None else []
           | Some k \<Rightarrow>
               (let end_index = min (i + k) (int (length (buffer c)))
                in if i < int (length (buffer c)) then py_slice (buffer c) i (Some end_index)
                   else [])))"

definition clear_buffer :: "connection \<Rightarrow> connection" where
  "clear_buffer c = c\<lparr>buffer := []\<rparr>"

record buffer_info =
  info_connection_id :: string
  chunks :: int
  total_bytes :: int
  info_bytes_sent :: int
  info_bytes_received :: int
  info_connected :: bool

definition get_buffer_info :: "connection \<Rightarrow> buffer_info" where
  "get_buffer_info c =
     \<lparr>info_connection_id = connection_id c,
      chunks = int (length (buffer c)),
      total_bytes = sum_list (map (\<lambda>chunk. int (length chunk)) (buffer c)),
      info_bytes_sent = bytes_sent c,
      info_bytes_received = bytes_received c,
      info_connected = connected c\<rparr>"

subsection \<open>Trigger registration\<close>

definition add_trigger :: "connection \<Rightarrow> string \<Rightarrow> string \<Rightarrow> bytes \<Rightarrow> connection" where
  "add_trigger c trigger_id pattern response =
     c\<lparr>triggers := AList.update pattern (trigger_id, response) (triggers c)\<rparr>"

definition remove_trigger :: "connection \<Rightarrow> string \<Rightarrow> bool \<times> connection" where
  "remove_trigger c trigger_id =
     (case find (\<lambda>(pattern, tid, _). tid = trigger_id) (triggers c) of
        Some (pattern, _) \<Rightarrow> (True, c\<lparr>triggers := AList.delete pattern (triggers c)\<rparr>)
      | None \<Rightarrow> (False, c))"

definition get_triggers :: "connection \<Rightarrow> (string \<times> string \<times> int) list" where
  "get_triggers c = map (\<lambda>(pattern, tid, response). (tid, pattern, int (length response))) (triggers c)"

subsection \<open>Runs of a connection\<close>

text \<open>
  The calls the shell can make on a connection, and one pass of the receive loop, as events.
  Each event is taken as one step: the only suspension points inside a step are the lock
  and the socket calls, and the buffer append and the counter update share one critical
  section with no suspension point between them.
\<close>

datatype event =
    Ev_connect "writer option"
  | Ev_disconnect
  | Ev_send bytes
  | Ev_read_buffer "int option" "int option"
  | Ev_clear_buffer
  | Ev_get_buffer_info
  | Ev_add_trigger string string bytes
  | Ev_remove_trigger string
  | Ev_receive read_result

fun send_conn :: "send_result \<Rightarrow> connection" where
  "send_conn (Returned _ c) = c"
| "send_conn (Cancelled c) = c"

fun loop_conn :: "loop_result \<Rightarrow> connection" where
  "loop_conn (Completed c) = c"
| "loop_conn (Raised c) = c"
| "loop_conn (Loop_cancelled c) = c"

fun check_conn :: "check_result \<Rightarrow> connection" where
  "check_conn (Checked c) = c"
| "check_conn (Check_cancelled c) = c"

fun step :: "searcher \<Rightarrow> connection \<Rightarrow> event \<Rightarrow> connection" where
  "step search c (Ev_connect opened) = snd (connect c opened)"
| "step search c Ev_disconnect = disconnect c"
| "step search c (Ev_send data) = send_conn (send c data)"
| "step search c (Ev_read_buffer index count) = c"
| "step search c Ev_clear_buffer = clear_buffer c"
| "step search c Ev_get_buffer_info = c"
| "step search c (Ev_add_trigger trigger_id pattern response) = add_trigger c trigger_id pattern response"
| "step search c (Ev_remove_trigger trigger_id) = snd (remove_trigger c trigger_id)"
| "step search c (Ev_receive r) = snd (read_loop_iter search c r)"

fun run :: "searcher \<Rightarrow> connection \<Rightarrow> event list \<Rightarrow> connection" where
  "run search c [] = c"
| "run search c (e # es) = run search (step search c e) es"

text \<open>
  The chunks a step appends to the buffer (lines 92 to 94 of the receive loop run exactly
  when the loop condition holds and the read gave a non-empty chunk), and the chunks
  appended along a run.
\<close>

fun appended :: "connection \<Rightarrow> event \<Rightarrow> bytes list" where
  "appended c (Ev_receive (Read_data data)) =
     (if connected c \<and> reader c \<and> data \<noteq> [] then [data] else [])"
| "appended c _ = []"

fun history :: "searcher \<Rightarrow> connection \<Rightarrow> event list \<Rightarrow> bytes list" where
  "history search c [] = []"
| "history search c (e # es) = appended c e @ history search (step search c e) es"

definition total_len :: "bytes list \<Rightarrow> int" where
  "total_len cs = sum_list (map (\<lambda>chunk. int (length chunk)) cs)"

subsection \<open>Auxiliary notions for the statements\<close>

definition wire_of :: "connection \<Rightarrow> bytes list" where
  "wire_of c = (case writer c of None \<Rightarrow> [] | Some w \<Rightarrow> wire w)"

text \<open>The connection is up and no coming write fails.\<close>

definition writes_ok :: "connection \<Rightarrow> bool" where
  "writes_ok c =
     (connected c \<and> (case writer c of None \<Rightarrow> False | Some w \<Rightarrow> list_all (\<lambda>r. r = Io_ok) (pending w)))"


definition matching_responses :: "searcher \<Rightarrow> bytes \<Rightarrow> trigger list \<Rightarrow> bytes list" where
  "matching_responses search data ts =
     map (\<lambda>(pattern, trigger_id, response). response)
       (filter (\<lambda>(pattern, trigger_id, response). search pattern data = Some True) ts)"

section \<open>Hex decoding (server.py)\<close>

text \<open>Python's \<open>sub in s\<close> on sequences.\<close>

fun contains :: "'a list \<Rightarrow> 'a list \<Rightarrow> bool" where
  "contains sub [] = (sub = [])"
| "contains sub (c # cs) = (prefix sub (c # cs) \<or> contains sub cs)"

subsection \<open>Strings and library functions\<close>

text \<open>
  A Python \<open>str\<close> is a sequence of code points. A \<open>str\<close> can hold lone surrogates
  (U+D800 to U+DFFF), which \<open>encode('utf-8')\<close> refuses; text without them is valid.
\<close>

type_synonym ustr = "nat list"

definition ascii :: "string \<Rightarrow> ustr" where
  "ascii s = map of_char s"

datatype exn = ValueError | UnicodeEncodeError

definition is_surrogate :: "nat \<Rightarrow> bool" where
  "is_surrogate c = (55296 \<le> c \<and> c \<le> 57343)"

definition valid_text :: "ustr \<Rightarrow> bool" where
  "valid_text s = list_all (\<lambda>c. c < 1114112 \<and> \<not> is_surrogate c) s"

definition utf8_char :: "nat \<Rightarrow> bytes" where
  "utf8_char c =
     (if c < 128 then [of_nat c]
      else if c < 2048 then [of_nat (192 + c div 64), of_nat (128 + c mod 64)]
      else if c < 65536 then
        [of_nat (224 + c div 4096), of_nat (128 + c div 64 mod 64), of_nat (128 + c mod 64)]
      else
        [of_nat (240 + c div 262144), of_nat (128 + c div 4096 mod 64),
         of_nat (128 + c div 64 mod 64), of_nat (128 + c mod 64)])"

definition encode_utf8 :: "ustr \<Rightarrow> exn + bytes" where
  "encode_utf8 s =
     (if list_ex is_surrogate s then Inl UnicodeEncodeError else Inr (concat (map utf8_char s)))"

text \<open>\<open>s.replace(old, "")\<close>: the occurrences of \<open>old\<close> are removed from left to right.\<close>

function remove_all :: "'a list \<Rightarrow> 'a list \<Rightarrow> 'a list" where
  "remove_all old [] = []"
| "remove_all old (c # cs) =
     (if old \<noteq> [] \<and> prefix old (c # cs) then remove_all old (drop (length old) (c # cs))
      else c # remove_all old cs)"
  by pat_completeness auto
termination
  by (relation "measure (\<lambda>(old, s). length s)") auto

text \<open>ASCII whitespace (\<open>Py_ISSPACE\<close>) and the value of a base-16 digit.\<close>

definition is_space :: "nat \<Rightarrow> bool" where
  "is_space c = (c = 32 \<or> (9 \<le> c \<and> c \<le> 13))"

definition hex_value :: "nat \<Rightarrow> nat option" where
  "hex_value c =
     (if 48 \<le> c \<and> c \<le> 57 then Some (c - 48)
      else if 97 \<le> c \<and> c \<le> 102 then Some (c - 87)
      else if 65 \<le> c \<and> c \<le> 70 then Some (c - 55)
      else None)"

definition is_hex_digit :: "nat \<Rightarrow> bool" where
  "is_hex_digit c = (hex_value c \<noteq> None)"

text \<open>
  \<open>bytes.fromhex\<close>: two hex digits per byte; ASCII whitespace is skipped before a pair
  and at the end, not inside a pair; anything else raises \<open>ValueError\<close>.
\<close>

fun fromhex :: "ustr \<Rightarrow> exn + bytes" where
  "fromhex [] = Inr []"
| "fromhex [c] = (if is_space c then Inr [] else Inl ValueError)"
| "fromhex (c # d # cs) =
     (if is_space c then fromhex (d # cs)
      else case (hex_value c, hex_value d) of
             (Some h, Some l) \<Rightarrow>
               (case fromhex cs of Inl e \<Rightarrow> Inl e | Inr bs \<Rightarrow> Inr (of_nat (16 * h + l) # bs))
           | _ \<Rightarrow> Inl ValueError)"

text \<open>\<open>bytes.hex()\<close>: two lowercase hex digits per byte.\<close>

definition hex_digit :: "nat \<Rightarrow> nat" where
  "hex_digit n = (if n < 10 then 48 + n else 87 + n)"

definition bytes_hex :: "bytes \<Rightarrow> ustr" where
  "bytes_hex b = concat (map (\<lambda>x. [hex_digit (unat x div 16), hex_digit (unat x mod 16)]) b)"

text \<open>
  \<open>int(s, 16)\<close>. A string that is not ASCII is first rewritten: a Unicode space becomes a
  blank, a Unicode decimal digit its ASCII digit, any other code point from 127 on a
  question mark. The Unicode character database is a parameter: it gives the class of
  a code point from 127 on. Then: optional ASCII whitespace, an optional sign, an optional
  \<open>0x\<close> prefix (one underscore may follow it), hex digits with single underscores between
  them, optional whitespace.
\<close>

datatype uclass = U_space | U_decimal nat | U_other

type_synonym ucd = "nat \<Rightarrow> uclass"

definition to_ascii :: "ucd \<Rightarrow> nat \<Rightarrow> nat" where
  "to_ascii U c =
     (if c < 127 then c
      else case U c of U_space \<Rightarrow> 32 | U_decimal d \<Rightarrow> 48 + d | U_other \<Rightarrow> 63)"

fun scan_digits :: "bool \<Rightarrow> nat \<Rightarrow> ustr \<Rightarrow> (nat \<times> ustr) option" where
  "scan_digits prev_underscore acc [] = (if prev_underscore then None else Some (acc, []))"
| "scan_digits prev_underscore acc (c # cs) =
     (if c = 95 then (if prev_underscore then None else scan_digits True acc cs)
      else case hex_value c of
             Some d \<Rightarrow> scan_digits False (16 * acc + d) cs
           | None \<Rightarrow> if prev_underscore then None else Some (acc, c # cs))"

definition skip_sign :: "ustr \<Rightarrow> bool \<times> ustr" where
  "skip_sign s =
     (case s of
        [] \<Rightarrow> (False, [])
      | c # cs \<Rightarrow> if c = 43 then (False, cs) else if c = 45 then (True, cs) else (False, s))"

definition skip_prefix :: "ustr \<Rightarrow> ustr" where
  "skip_prefix s =
     (case s of
        c # d # cs \<Rightarrow>
          if c = 48 \<and> (d = 120 \<or> d = 88) then (case cs of e # es \<Rightarrow> if e = 95 then es else cs | [] \<Rightarrow> cs)
          else s
      | _ \<Rightarrow> s)"

definition py_int16 :: "ucd \<Rightarrow> ustr \<Rightarrow> exn + int" where
  "py_int16 U s =
     (let (negative, unsigned) = skip_sign (dropWhile is_space (map (to_ascii U) s));
          digits = skip_prefix unsigned
      in case digits of
           [] \<Rightarrow> Inl ValueError
         | c # _ \<Rightarrow>
             if c = 95 then Inl ValueError
             else case scan_digits False 0 digits of
                    None \<Rightarrow> Inl ValueError
                  | Some (v, rest) \<Rightarrow>
                      if length rest = length digits then Inl ValueError
                      else if dropWhile is_space rest = [] then
                        Inr (if negative then - int v else int v)
                      else Inl ValueError)"

text \<open>\<open>bytearray.append\<close> takes an integer in \<open>range(0, 256)\<close>.\<close>

definition bytearray_append :: "bytes \<Rightarrow> int \<Rightarrow> exn + bytes" where
  "bytearray_append b v = (if 0 \<le> v \<and> v < 256 then Inr (b @ [of_int v]) else Inl ValueError)"

subsection \<open>The three regular-expression calls\<close>

text \<open>
  The pattern is \<open>\\x([0-9a-fA-F]{2})\<close>: a backslash (92), an \<open>x\<close> (120) and two ASCII
  hex digits. Matches are found from left to right and do not overlap. \<open>findall_esc\<close> is
  \<open>re.findall\<close> (the captured digit pairs), \<open>sub_esc\<close> is \<open>re.sub\<close> with the
  replacement \<open>'\x00'\<close>, \<open>split_esc\<close> is \<open>re.split\<close> with the pattern in a group
  (the text between the matches and the matches themselves, empty strings included).
\<close>

definition esc :: ustr where
  "esc = [92, 120]"

definition is_esc :: "nat \<Rightarrow> nat \<Rightarrow> nat \<Rightarrow> nat \<Rightarrow> bool" where
  "is_esc a b h l = (a = 92 \<and> b = 120 \<and> is_hex_digit h \<and> is_hex_digit l)"

fun findall_esc :: "ustr \<Rightarrow> ustr list" where
  "findall_esc (a # b # h # l # rest) =
     (if is_esc a b h l then [h, l] # findall_esc rest else findall_esc (b # h # l # rest))"
| "findall_esc s = []"

fun sub_esc :: "ustr \<Rightarrow> ustr" where
  "sub_esc (a # b # h # l # rest) =
     (if is_esc a b h l then 0 # sub_esc rest else a # sub_esc (b # h # l # rest))"
| "sub_esc s = s"

fun split_esc :: "ustr \<Rightarrow> ustr \<Rightarrow> ustr list" where
  "split_esc lit (a # b # h # l # rest) =
     (if is_esc a b h l then lit # [a, b, h, l] # split_esc [] rest
      else split_esc (lit @ [a]) (b # h # l # rest))"
| "split_esc lit s = [lit @ s]"

subsection \<open>The decoder\<close>

definition clean :: "ustr \<Rightarrow> ustr" where
  "clean hex_str =
     remove_all [13] (remove_all [10] (remove_all [32]
       (remove_all [48, 88] (remove_all [48, 120] hex_str))))"

text \<open>The first loop: \<open>for hex_val in matches: hex_bytes.append(int(hex_val, 16))\<close>.\<close>

fun append_matches :: "ucd \<Rightarrow> bytes \<Rightarrow> ustr list \<Rightarrow> exn + bytes" where
  "append_matches U hex_bytes [] = Inr hex_bytes"
| "append_matches U hex_bytes (hex_val # matches) =
     (case py_int16 U hex_val of
        Inl e \<Rightarrow> Inl e
      | Inr v \<Rightarrow>
          (case bytearray_append hex_bytes v of
             Inl e \<Rightarrow> Inl e
           | Inr hex_bytes' \<Rightarrow> append_matches U hex_bytes' matches))"

text \<open>The second loop, over the parts of the split.\<close>

fun append_parts :: "ucd \<Rightarrow> bytes \<Rightarrow> ustr list \<Rightarrow> exn + bytes" where
  "append_parts U hex_bytes [] = Inr hex_bytes"
| "append_parts U hex_bytes (part # parts) =
     (if prefix esc part \<and> length part = 4 then
        (case py_int16 U (drop 2 part) of
           Inl e \<Rightarrow> Inl e
         | Inr v \<Rightarrow>
             (case bytearray_append hex_bytes v of
                Inl e \<Rightarrow> Inl e
              | Inr hex_bytes' \<Rightarrow> append_parts U hex_bytes' parts))
      else if part \<noteq> [] then
        (case encode_utf8 part of
           Inl e \<Rightarrow> Inl e
         | Inr bs \<Rightarrow> append_parts U (hex_bytes @ bs) parts)
      else append_parts U hex_bytes parts)"

definition parse_hex_string :: "ucd \<Rightarrow> ustr \<Rightarrow> exn + bytes" where
  "parse_hex_string U hex_str =
     (let clean_hex = clean hex_str
      in if contains esc hex_str then
           (let matches = findall_esc hex_str
            in case append_matches U [] matches of
                 Inl e \<Rightarrow> Inl e
               | Inr hex_bytes \<Rightarrow>
                   (let remaining = sub_esc hex_str
                    in if remaining \<noteq> [] \<and> remaining \<noteq> replicate (length matches) 0 then
                         append_parts U [] (split_esc [] hex_str)
                       else Inr hex_bytes))
         else
           (case fromhex clean_hex of
              Inr b \<Rightarrow> Inr b
            | Inl ValueError \<Rightarrow> encode_utf8 hex_str
            | Inl e \<Rightarrow> Inl e))"

section \<open>Example values\<close>

text \<open>
  A small searcher for the examples: the pattern \<open>(\<close> is not a regular expression
  (\<open>re.error\<close>); any other pattern is read as literal text, found anywhere in the chunk.
\<close>

definition literal_search :: searcher where
  "literal_search pattern data =
     (if pattern = ''('' then None else Some (contains (map of_char pattern) data))"

definition chunk :: "string \<Rightarrow> bytes" where
  "chunk s = map of_char s"

definition fresh_writer :: writer where
  "fresh_writer = \<lparr>wire = [], pending = []\<rparr>"

definition live :: connection where
  "live = snd (connect (init ''c1'' ''localhost'' 6667) (Some fresh_writer))"

definition three_chunks :: connection where
  "three_chunks = live\<lparr>buffer := [chunk ''c0'', chunk ''c1'', chunk ''c2'']\<rparr>"

definition ping_pong :: connection where
  "ping_pong =
     add_trigger (add_trigger live ''t1'' ''PING'' (chunk ''PONG $1'')) ''t2'' ''server'' (chunk ''hello'')"


definition failing_writer :: writer where
  "failing_writer = \<lparr>wire = [], pending = [Io_error]\<rparr>"

definition flaky :: connection where
  "flaky = snd (connect (init ''c2'' ''localhost'' 6667) (Some failing_writer))"



definition session :: "event list" where
  "session =
     [Ev_connect (Some fresh_writer), Ev_receive (Read_data (chunk ''PING'')), Ev_clear_buffer,
      Ev_receive (Read_data (chunk ''xy''))]"

text \<open>The digits 48 and 65 with a tab between the pairs.\<close>

definition hex_tab :: ustr where
  "hex_tab = ascii ''48'' @ [9] @ ascii ''65''"

text \<open>A character database without Unicode spaces and digits, for the examples.\<close>

definition plain_ucd :: ucd where
  "plain_ucd c = U_other"

section \<open>Properties of the connection engine\<close>

subsection \<open>Reading the buffer\<close>

lemma py_slice_eq:
  "py_slice xs start stop =
     take (nat ((case stop of None \<Rightarrow> int (length xs) | Some s \<Rightarrow> slice_bound (int (length xs)) s)
                 - slice_bound (int (length xs)) start))
       (drop (nat (slice_bound (int (length xs)) start)) xs)"
  by (simp add: py_slice_def Let_def)

text \<open>
  Claim C2. With non-negative arguments: \<open>read_buffer()\<close> returns the whole chunk sequence
  in arrival order, \<open>read_buffer(index)\<close> the chunks from \<open>index\<close> to the end,
  \<open>read_buffer(index, count)\<close> the range from \<open>index\<close> to \<open>index + count\<close> cut at the
  end of the buffer, and an \<open>index\<close> at or beyond the length gives the empty sequence.
\<close>

theorem read_buffer_nonneg:
  "0 \<le> i \<Longrightarrow> 0 \<le> k \<Longrightarrow>
     read_buffer c None None = buffer c \<and>
     read_buffer c (Some i) None = drop (nat i) (buffer c) \<and>
     read_buffer c (Some i) (Some k) = take (nat k) (drop (nat i) (buffer c)) \<and>
     (int (length (buffer c)) \<le> i \<longrightarrow>
        read_buffer c (Some i) None = [] \<and> read_buffer c (Some i) (Some k) = [])"
  by (auto simp add: read_buffer_def py_slice_def slice_bound_def Let_def min_def)

theorem read_buffer_nonneg_witness:
  "(0::int) \<le> 1 \<and> (0::int) \<le> 1 \<and>
   read_buffer three_chunks None None = [chunk ''c0'', chunk ''c1'', chunk ''c2''] \<and>
   read_buffer three_chunks (Some 1) None = [chunk ''c1'', chunk ''c2''] \<and>
   read_buffer three_chunks (Some 1) (Some 1) = [chunk ''c1''] \<and>
   int (length (buffer three_chunks)) \<le> 10 \<and>
   read_buffer three_chunks (Some 10) None = [] \<and>
   read_buffer three_chunks (Some 10) (Some 1) = []"
  using read_buffer_nonneg [of 1 1 three_chunks] read_buffer_nonneg [of 10 1 three_chunks]
  by (simp add: three_chunks_def)

text \<open>
  Claim C10, as stated, fails: with a negative \<open>index\<close> and a \<open>count\<close>, the stop of the
  slice is \<open>min(index + count, len)\<close>, and \<open>read_buffer(-1, 1)\<close> on three chunks is the
  slice \<open>buffer[-1:0]\<close>, which is empty.
\<close>

theorem read_buffer_negative_count_counterexample:
  "- int (length (buffer three_chunks)) \<le> - 1 \<and> buffer three_chunks \<noteq> [] \<and>
   read_buffer three_chunks (Some (- 1)) (Some 1) = []"
  by (simp add: three_chunks_def read_buffer_def py_slice_def slice_bound_def)

text \<open>
  Claim C10, amended. For \<open>-len(buffer) \<le> index < 0\<close>: \<open>read_buffer(index)\<close> returns the
  last \<open>-index\<close> chunks, a non-empty sequence; \<open>read_buffer(index, count)\<close> is the Python
  slice \<open>buffer[index : min(index + count, len)]\<close>, which starts at position
  \<open>len + index\<close>: when \<open>count \<ge> 0\<close> and \<open>index + count < 0\<close> it holds the \<open>count\<close>
  chunks from there, and when \<open>index + count \<ge> 0\<close> the stop is an absolute position, so
  it holds the chunks from \<open>len + index\<close> up to \<open>min(index + count, len)\<close>, possibly none.
  Neither call raises.
\<close>

theorem read_buffer_negative:
  "- int (length (buffer c)) \<le> i \<Longrightarrow> i < 0 \<Longrightarrow>
     read_buffer c (Some i) None = drop (nat (int (length (buffer c)) + i)) (buffer c) \<and>
     read_buffer c (Some i) None \<noteq> [] \<and>
     (0 \<le> k \<and> i + k < 0 \<longrightarrow>
        read_buffer c (Some i) (Some k) =
          take (nat k) (drop (nat (int (length (buffer c)) + i)) (buffer c))) \<and>
     (0 \<le> i + k \<longrightarrow>
        read_buffer c (Some i) (Some k) =
          take (nat (min (i + k) (int (length (buffer c))) - (int (length (buffer c)) + i)))
            (drop (nat (int (length (buffer c)) + i)) (buffer c)))"
proof -
  assume lo: "- int (length (buffer c)) \<le> i" and neg: "i < 0"
  define n where "n = int (length (buffer c))"
  have len: "int (length (buffer c)) = n" by (simp add: n_def)
  have n: "0 < n" "0 \<le> n + i" "n + i < n" using lo neg by (auto simp add: n_def)
  have sb: "slice_bound n i = n + i" using n neg by (simp add: slice_bound_def)
  have a: "read_buffer c (Some i) None = drop (nat (n + i)) (buffer c)"
  proof -
    have "length (drop (nat (n + i)) (buffer c)) \<le> nat (n - (n + i))"
      using n neg by (simp add: n_def)
    then show ?thesis using neg n
      by (simp add: read_buffer_def py_slice_eq len sb)
  qed
  have b: "drop (nat (n + i)) (buffer c) \<noteq> []"
    using n by (simp add: n_def)
  have c: "read_buffer c (Some i) (Some k) = take (nat k) (drop (nat (n + i)) (buffer c))"
    if "0 \<le> k" "i + k < 0"
  proof -
    have "min (i + k) n = i + k" using that n by simp
    moreover have "slice_bound n (i + k) = max (i + k + n) 0" using that by (simp add: slice_bound_def)
    moreover have "max (i + k + n) 0 - (n + i) = k" using that n by simp
    ultimately show ?thesis using n neg
      by (simp add: read_buffer_def py_slice_eq len sb Let_def)
  qed
  have d: "read_buffer c (Some i) (Some k) =
      take (nat (min (i + k) n - (n + i))) (drop (nat (n + i)) (buffer c))"
    if "0 \<le> i + k"
  proof -
    have "slice_bound n (min (i + k) n) = min (i + k) n" using that n by (simp add: slice_bound_def)
    then show ?thesis using n neg
      by (simp add: read_buffer_def py_slice_eq len sb Let_def)
  qed
  show ?thesis using a b c d by (simp add: n_def)
qed

theorem read_buffer_negative_witness:
  "- int (length (buffer three_chunks)) \<le> - 2 \<and> (- 2 :: int) < 0 \<and>
   read_buffer three_chunks (Some (- 2)) None = [chunk ''c1'', chunk ''c2''] \<and>
   (0::int) \<le> 1 \<and> (- 2 :: int) + 1 < 0 \<and>
   read_buffer three_chunks (Some (- 2)) (Some 1) = [chunk ''c1''] \<and>
   (0::int) \<le> - 2 + 4 \<and>
   read_buffer three_chunks (Some (- 2)) (Some 4) = [chunk ''c1'']"
  using read_buffer_negative [of three_chunks "- 2" 1] read_buffer_negative [of three_chunks "- 2" 4]
  by (simp add: three_chunks_def)

subsection \<open>Clearing the buffer\<close>

text \<open>
  Claim C9. \<open>clear_buffer()\<close> empties the chunk sequence, so that \<open>get_buffer_info()\<close>
  reports no chunk and no byte, and leaves \<open>bytes_received\<close>, \<open>bytes_sent\<close>, the connected
  flag and the triggers as they were.
\<close>

theorem clear_buffer_frame:
  "buffer (clear_buffer c) = [] \<and>
   chunks (get_buffer_info (clear_buffer c)) = 0 \<and>
   total_bytes (get_buffer_info (clear_buffer c)) = 0 \<and>
   bytes_received (clear_buffer c) = bytes_received c \<and>
   info_bytes_received (get_buffer_info (clear_buffer c)) = bytes_received c \<and>
   bytes_sent (clear_buffer c) = bytes_sent c \<and>
   connected (clear_buffer c) = connected c \<and>
   triggers (clear_buffer c) = triggers c"
  by (simp add: clear_buffer_def get_buffer_info_def)

theorem clear_buffer_frame_witness:
  "buffer three_chunks \<noteq> [] \<and>
   buffer (clear_buffer three_chunks) = [] \<and>
   chunks (get_buffer_info (clear_buffer three_chunks)) = 0 \<and>
   total_bytes (get_buffer_info (clear_buffer three_chunks)) = 0 \<and>
   connected (clear_buffer three_chunks)"
  using clear_buffer_frame [of three_chunks]
  by (simp add: three_chunks_def live_def connect_def init_def)

subsection \<open>Sending\<close>

text \<open>
  Claim C3. \<open>send(data)\<close> returns false when the connection is not connected, and when the
  write raises an I/O error, in which case the connection becomes disconnected; when the
  write succeeds it returns true and \<open>bytes_sent\<close> grows by \<open>len(data)\<close>; whenever it
  returns false \<open>bytes_sent\<close> is unchanged.
\<close>

theorem send_result_ok:
  "(\<not> connected c \<longrightarrow> send c data = Returned False c) \<and>
   (connected c \<and> writer c = Some w \<and> next_outcome w = Io_error \<longrightarrow>
      (\<exists>c'. send c data = Returned False c' \<and> \<not> connected c' \<and> bytes_sent c' = bytes_sent c)) \<and>
   (connected c \<and> writer c = Some w \<and> next_outcome w = Io_ok \<longrightarrow>
      (\<exists>c'. send c data = Returned True c' \<and> bytes_sent c' = bytes_sent c + int (length data))) \<and>
   (\<forall>c'. send c data = Returned True c' \<longrightarrow> bytes_sent c' = bytes_sent c + int (length data)) \<and>
   (\<forall>c'. send c data = Returned False c' \<longrightarrow> bytes_sent c' = bytes_sent c)"
  by (auto simp add: send_def split: option.splits io_outcome.splits)

theorem send_result_ok_witness:
  "\<not> connected (init ''c0'' ''localhost'' 6667) \<and>
   send (init ''c0'' ''localhost'' 6667) (chunk ''abc'') = Returned False (init ''c0'' ''localhost'' 6667) \<and>
   connected flaky \<and> writer flaky = Some failing_writer \<and> next_outcome failing_writer = Io_error \<and>
   (\<exists>c'. send flaky (chunk ''abc'') = Returned False c' \<and> \<not> connected c' \<and> bytes_sent c' = 0) \<and>
   connected live \<and> writer live = Some fresh_writer \<and> next_outcome fresh_writer = Io_ok \<and>
   (\<exists>c'. send live (chunk ''abc'') = Returned True c' \<and> bytes_sent c' = 3)"
  using send_result_ok [of "init ''c0'' ''localhost'' 6667" "chunk ''abc''"]
    send_result_ok [of flaky "chunk ''abc''" failing_writer]
    send_result_ok [of live "chunk ''abc''" fresh_writer]
  by (simp add: live_def flaky_def connect_def init_def fresh_writer_def failing_writer_def
      next_outcome_def chunk_def)

subsection \<open>The received-bytes counter\<close>

text \<open>Neither \<open>send\<close> nor the trigger loop touches the buffer or \<open>bytes_received\<close>.\<close>

lemma send_frame:
  "buffer (send_conn (send c data)) = buffer c"
  "bytes_received (send_conn (send c data)) = bytes_received c"
  "triggers (send_conn (send c data)) = triggers c"
  by (simp_all add: send_def split: option.splits io_outcome.splits)

lemma send_Returned_frame:
  assumes "send c data = Returned b c'"
  shows "buffer c' = buffer c" "bytes_received c' = bytes_received c"
  using send_frame [of c data] assms by simp_all

lemma send_Cancelled_frame:
  assumes "send c data = Cancelled c'"
  shows "buffer c' = buffer c" "bytes_received c' = bytes_received c"
  using send_frame [of c data] assms by simp_all

lemma dispatch_frame:
  "buffer (loop_conn (dispatch search data ts c)) = buffer c \<and>
   bytes_received (loop_conn (dispatch search data ts c)) = bytes_received c"
proof (induction ts arbitrary: c)
  case Nil
  show ?case by simp
next
  case (Cons t ts)
  obtain pattern trigger_id response where t: "t = (pattern, trigger_id, response)"
    by (cases t) auto
  show ?case
  proof (cases "search pattern data")
    case None
    then show ?thesis by (simp add: t)
  next
    case (Some b)
    show ?thesis
    proof (cases b)
      case False
      then show ?thesis using Some Cons.IH by (simp add: t)
    next
      case True
      show ?thesis
      proof (cases "send c response")
        case (Returned r c')
        then show ?thesis
          using Some True Cons.IH [of c'] send_Returned_frame [OF Returned] by (simp add: t)
      next
        case (Cancelled c')
        then show ?thesis
          using Some True send_Cancelled_frame [OF Cancelled] by (simp add: t)
      qed
    qed
  qed
qed

lemma check_triggers_frame:
  "buffer (check_conn (check_triggers search c data)) = buffer c \<and>
   bytes_received (check_conn (check_triggers search c data)) = bytes_received c"
  using dispatch_frame [of search data "triggers c" c]
  by (cases "dispatch search data (triggers c) c") (simp_all add: check_triggers_def)

lemma read_loop_iter_frame:
  "buffer (snd (read_loop_iter search c r)) = buffer c @ appended c (Ev_receive r) \<and>
   bytes_received (snd (read_loop_iter search c r)) = bytes_received c + total_len (appended c (Ev_receive r))"
proof (cases r)
  case (Read_data data)
  show ?thesis
  proof (cases "connected c \<and> reader c \<and> data \<noteq> []")
    case True
    define c1 where "c1 = c\<lparr>buffer := buffer c @ [data], bytes_received := bytes_received c + int (length data)\<rparr>"
    have "buffer (check_conn (check_triggers search c1 data)) = buffer c @ [data]"
      "bytes_received (check_conn (check_triggers search c1 data)) = bytes_received c + int (length data)"
      using check_triggers_frame [of search c1 data] by (simp_all add: c1_def)
    then show ?thesis using True Read_data
      by (cases "check_triggers search c1 data")
         (simp_all add: read_loop_iter_def Let_def c1_def [symmetric] total_len_def)
  next
    case False
    then show ?thesis using Read_data by (auto simp add: read_loop_iter_def total_len_def)
  qed
qed (simp_all add: read_loop_iter_def total_len_def)

lemma step_received:
  "bytes_received (step search c e) = bytes_received c + total_len (appended c e)"
proof (cases e)
  case (Ev_receive r)
  then show ?thesis using read_loop_iter_frame [of search c r] by simp
next
  case (Ev_send d)
  then show ?thesis by (simp add: send_frame total_len_def)
qed (simp_all add: total_len_def connect_def disconnect_def clear_buffer_def add_trigger_def
       remove_trigger_def split: option.splits)

lemma step_buffer:
  "buffer (step search c e) = (if e = Ev_clear_buffer then [] else buffer c @ appended c e)"
proof (cases e)
  case (Ev_receive r)
  then show ?thesis using read_loop_iter_frame [of search c r] by simp
next
  case (Ev_send d)
  then show ?thesis by (simp add: send_frame)
qed (simp_all add: connect_def disconnect_def clear_buffer_def add_trigger_def
       remove_trigger_def split: option.splits)

lemma total_len_append: "total_len (xs @ ys) = total_len xs + total_len ys"
  by (simp add: total_len_def)

lemma run_received:
  "bytes_received (run search c es) = bytes_received c + total_len (history search c es)"
proof (induction es arbitrary: c)
  case Nil
  show ?case by (simp add: total_len_def)
next
  case (Cons e es)
  show ?case using Cons.IH [of "step search c e"]
    by (simp add: step_received total_len_append)
qed

text \<open>The receive loop is a run of passes, up to the pass that leaves the loop.\<close>

lemma read_loop_is_run:
  "\<exists>k \<le> length rs. read_loop search c rs = run search c (map Ev_receive (take k rs))"
proof (induction rs arbitrary: c)
  case Nil
  show ?case by simp
next
  case (Cons r rs)
  obtain go c' where it: "read_loop_iter search c r = (go, c')" by (cases "read_loop_iter search c r")
  show ?case
  proof (cases go)
    case True
    from Cons.IH [of c'] obtain k where
      k: "k \<le> length rs" "read_loop search c' rs = run search c' (map Ev_receive (take k rs))"
      by blast
    have "read_loop search c (r # rs) = run search c (map Ev_receive (take (Suc k) (r # rs)))"
      using it True k by simp
    then show ?thesis using k(1) by (metis Suc_le_mono length_Cons)
  next
    case False
    have "read_loop search c (r # rs) = run search c (map Ev_receive (take (Suc 0) (r # rs)))"
      using it False by simp
    then show ?thesis by (metis Suc_le_mono length_Cons le0)
  qed
qed

text \<open>
  Claim C1. In every state reached from a fresh connection, \<open>bytes_received\<close> is the sum
  of the lengths of all chunks the receive loop has appended so far, cleared ones included.
  Every step adds to \<open>bytes_received\<close> exactly the length of what it appends to the
  buffer; connect, disconnect, send, read_buffer, clear_buffer, get_buffer_info,
  add_trigger and remove_trigger leave it unchanged; and a step that changes it is a pass
  of the receive loop that appends one chunk.
\<close>

theorem bytes_received_invariant:
  "bytes_received (run search (init cid h p) es) = total_len (history search (init cid h p) es) \<and>
   (\<forall>c e. bytes_received (step search c e) = bytes_received c + total_len (appended c e)) \<and>
   (\<forall>c e. buffer (step search c e) = (if e = Ev_clear_buffer then [] else buffer c @ appended c e)) \<and>
   (\<forall>c e. (\<forall>r. e \<noteq> Ev_receive r) \<longrightarrow> bytes_received (step search c e) = bytes_received c) \<and>
   (\<forall>c e. bytes_received (step search c e) \<noteq> bytes_received c \<longrightarrow>
      (\<exists>data. e = Ev_receive (Read_data data) \<and> buffer (step search c e) = buffer c @ [data]))"
proof -
  have a: "bytes_received (run search (init cid h p) es) = total_len (history search (init cid h p) es)"
    using run_received [of search "init cid h p" es] by (simp add: init_def)
  have b: "bytes_received (step search c e) = bytes_received c" if "\<forall>r. e \<noteq> Ev_receive r" for c e
    using that step_received [of search c e] by (cases e) (simp_all add: total_len_def)
  have c: "\<exists>data. e = Ev_receive (Read_data data) \<and> buffer (step search c e) = buffer c @ [data]"
    if "bytes_received (step search c e) \<noteq> bytes_received c" for c e
  proof -
    have ne: "appended c e \<noteq> []"
      using that step_received [of search c e] by (auto simp add: total_len_def)
    then obtain data where e: "e = Ev_receive (Read_data data)" and ap: "appended c e = [data]"
      by (cases "(c, e)" rule: appended.cases) (auto split: if_splits)
    show ?thesis using e ap step_buffer [of search c e] by simp
  qed
  show ?thesis using a b c step_received step_buffer by blast
qed

theorem bytes_received_invariant_witness:
  "bytes_received (run literal_search (init ''c1'' ''localhost'' 6667) session) = 6 \<and>
   total_len (history literal_search (init ''c1'' ''localhost'' 6667) session) = 6 \<and>
   buffer (run literal_search (init ''c1'' ''localhost'' 6667) session) = [chunk ''xy''] \<and>
   (\<forall>r. Ev_clear_buffer \<noteq> Ev_receive r) \<and>
   bytes_received (step literal_search three_chunks Ev_clear_buffer) = bytes_received three_chunks \<and>
   bytes_received (step literal_search live (Ev_receive (Read_data (chunk ''xy'')))) \<noteq> bytes_received live \<and>
   buffer (step literal_search live (Ev_receive (Read_data (chunk ''xy'')))) = buffer live @ [chunk ''xy'']"
proof -
  have r: "bytes_received (step literal_search live (Ev_receive (Read_data (chunk ''xy'')))) = 2"
    by (simp add: live_def connect_def init_def read_loop_iter_def check_triggers_def chunk_def)
  have h: "history literal_search (init ''c1'' ''localhost'' 6667) session = [chunk ''PING'', chunk ''xy'']"
    by (simp add: session_def connect_def init_def read_loop_iter_def check_triggers_def chunk_def
        clear_buffer_def)
  have b: "buffer (run literal_search (init ''c1'' ''localhost'' 6667) session) = [chunk ''xy'']"
    by (simp add: session_def connect_def init_def read_loop_iter_def check_triggers_def chunk_def
        clear_buffer_def)
  have l: "bytes_received live = 0" "buffer live = []" by (simp_all add: live_def connect_def init_def)
  note inv = bytes_received_invariant [of literal_search "''c1''" "''localhost''" 6667 session]
  have 1: "bytes_received (run literal_search (init ''c1'' ''localhost'' 6667) session) =
      total_len (history literal_search (init ''c1'' ''localhost'' 6667) session)"
    using inv by blast
  have 2: "bytes_received (step literal_search three_chunks Ev_clear_buffer) = bytes_received three_chunks"
    using inv by blast
  have "\<exists>data. Ev_receive (Read_data (chunk ''xy'')) = Ev_receive (Read_data data) \<and>
      buffer (step literal_search live (Ev_receive (Read_data (chunk ''xy'')))) = buffer live @ [data]"
    using inv r l by (metis zero_neq_numeral)
  then have 3: "buffer (step literal_search live (Ev_receive (Read_data (chunk ''xy'')))) =
      buffer live @ [chunk ''xy'']"
    by simp
  have 4: "total_len [chunk ''PING'', chunk ''xy''] = 6" by (simp add: total_len_def chunk_def)
  show ?thesis using 1 2 3 4 h b r l by simp
qed

subsection \<open>Trigger dispatch\<close>

lemma send_writes_ok:
  assumes "writes_ok c"
  shows "\<exists>c'. send c data = Returned True c' \<and> writes_ok c' \<and> wire_of c' = wire_of c @ [data] \<and>
           triggers c' = triggers c"
proof -
  from assms obtain w where w: "connected c" "writer c = Some w" "list_all (\<lambda>r. r = Io_ok) (pending w)"
    by (auto simp add: writes_ok_def split: option.splits)
  have nx: "next_outcome w = Io_ok" using w(3) by (cases "pending w") (simp_all add: next_outcome_def)
  have tl: "list_all (\<lambda>r. r = Io_ok) (tl (pending w))" using w(3) by (cases "pending w") simp_all
  show ?thesis using w nx tl by (simp add: send_def writes_ok_def wire_of_def)
qed

lemma matching_responses_Cons:
  "matching_responses search data ((p, tid, r) # ts) =
     (if search p data = Some True then r # matching_responses search data ts
      else matching_responses search data ts)"
  by (simp add: matching_responses_def)

lemma matching_responses_append:
  "matching_responses search data (ts @ us) =
     matching_responses search data ts @ matching_responses search data us"
  by (simp add: matching_responses_def)

lemma dispatch_writes_ok:
  assumes "writes_ok c" and "\<forall>t \<in> set ts. search (fst t) data \<noteq> None"
  shows "\<exists>c'. dispatch search data ts c = Completed c' \<and> writes_ok c' \<and>
           wire_of c' = wire_of c @ matching_responses search data ts \<and> triggers c' = triggers c"
  using assms
proof (induction ts arbitrary: c)
  case Nil
  then show ?case by (simp add: matching_responses_def)
next
  case (Cons t ts)
  obtain p tid r where t: "t = (p, tid, r)" by (cases t) auto
  from Cons.prems(2) obtain b where b: "search p data = Some b" by (auto simp add: t)
  have rest: "\<forall>t \<in> set ts. search (fst t) data \<noteq> None" using Cons.prems(2) by simp
  show ?case
  proof (cases b)
    case False
    then show ?thesis using b Cons.prems(1) rest Cons.IH [where c = c]
      by (simp add: t matching_responses_Cons)
  next
    case True
    from send_writes_ok [OF Cons.prems(1), of r] obtain c1 where
      c1: "send c r = Returned True c1" "writes_ok c1" "wire_of c1 = wire_of c @ [r]"
          "triggers c1 = triggers c"
      by blast
    from c1(2) rest Cons.IH [where c = c1] obtain c' where
      c': "dispatch search data ts c1 = Completed c'" "writes_ok c'"
          "wire_of c' = wire_of c1 @ matching_responses search data ts" "triggers c' = triggers c1"
      by blast
    show ?thesis using True b c1 c' by (simp add: t matching_responses_Cons)
  qed
qed



text \<open>
  Claim C8. While the connection is up and the writes succeed, and every registered
  pattern can be tested, the chunks written for one received chunk are exactly the stored
  responses of the matching triggers, unchanged (no substitution takes place: a stored
  \<open>$1\<close> goes out as it is), in the order of the trigger dict; and \<open>add_trigger\<close> stores
  the response it is given.
\<close>

theorem matching_responses_sent_verbatim:
  "writes_ok c \<Longrightarrow> (\<forall>t \<in> set (triggers c). search (fst t) data \<noteq> None) \<Longrightarrow>
     (\<exists>c'. check_triggers search c data = Checked c' \<and>
            wire_of c' = wire_of c @ matching_responses search data (triggers c)) \<and>
     map_of (triggers (add_trigger c trigger_id pattern response)) pattern = Some (trigger_id, response)"
proof -
  assume ok: "writes_ok c" and valid: "\<forall>t \<in> set (triggers c). search (fst t) data \<noteq> None"
  from ok valid dispatch_writes_ok [where c = c and ts = "triggers c" and search = search and data = data] obtain c' where
    "dispatch search data (triggers c) c = Completed c'"
    "wire_of c' = wire_of c @ matching_responses search data (triggers c)"
    by blast
  then have "check_triggers search c data = Checked c' \<and>
      wire_of c' = wire_of c @ matching_responses search data (triggers c)"
    by (simp add: check_triggers_def)
  moreover have "map_of (triggers (add_trigger c trigger_id pattern response)) pattern = Some (trigger_id, response)"
    by (simp add: add_trigger_def update_conv')
  ultimately show ?thesis by blast
qed

theorem matching_responses_sent_verbatim_witness:
  "writes_ok ping_pong \<and>
   triggers ping_pong = [(''PING'', ''t1'', chunk ''PONG $1''), (''server'', ''t2'', chunk ''hello'')] \<and>
   literal_search ''PING'' (chunk ''PING :server'') = Some True \<and>
   literal_search ''server'' (chunk ''PING :server'') = Some True \<and>
   (\<exists>c'. check_triggers literal_search ping_pong (chunk ''PING :server'') = Checked c' \<and>
      wire_of c' = [chunk ''PONG $1'', chunk ''hello''])"
proof -
  have a: "writes_ok ping_pong"
    by (simp add: ping_pong_def live_def init_def connect_def fresh_writer_def add_trigger_def writes_ok_def)
  have t: "triggers ping_pong = [(''PING'', ''t1'', chunk ''PONG $1''), (''server'', ''t2'', chunk ''hello'')]"
    by (simp add: ping_pong_def live_def init_def connect_def add_trigger_def)
  have s: "literal_search ''PING'' (chunk ''PING :server'') = Some True"
     "literal_search ''server'' (chunk ''PING :server'') = Some True"
    by (simp_all add: literal_search_def chunk_def)
  have b: "\<forall>t \<in> set (triggers ping_pong). literal_search (fst t) (chunk ''PING :server'') \<noteq> None"
    by (auto simp add: t s)
  have w: "wire_of ping_pong = []"
    by (simp add: ping_pong_def live_def init_def connect_def fresh_writer_def add_trigger_def wire_of_def)
  show ?thesis
    using a b matching_responses_sent_verbatim [where c = ping_pong and search = literal_search
        and data = "chunk ''PING :server''" and trigger_id = "''t''" and pattern = "''p''" and response = "[]"]
    by (simp add: t w matching_responses_def s)
qed










section \<open>Properties of the hex decoder\<close>

subsection \<open>Round trip\<close>

lemma prefix_in_set: "prefix old s \<Longrightarrow> x \<in> set old \<Longrightarrow> x \<in> set s"
  by (auto simp add: prefix_def)

lemma remove_all_absent:
  "x \<in> set old \<Longrightarrow> x \<notin> set s \<Longrightarrow> remove_all old s = s"
proof (induction s)
  case Nil
  show ?case by simp
next
  case (Cons c cs)
  have "\<not> prefix old (c # cs)" using Cons.prems prefix_in_set by metis
  then show ?case using Cons by simp
qed

lemma contains_absent:
  "x \<in> set sub \<Longrightarrow> x \<notin> set s \<Longrightarrow> \<not> contains sub s"
proof (induction s)
  case Nil
  then show ?case by auto
next
  case (Cons c cs)
  have "\<not> prefix sub (c # cs)" using Cons.prems prefix_in_set by metis
  then show ?case using Cons by simp
qed

lemma hex_digit_range:
  "n < 16 \<Longrightarrow> (48 \<le> hex_digit n \<and> hex_digit n \<le> 57) \<or> (97 \<le> hex_digit n \<and> hex_digit n \<le> 102)"
  by (auto simp add: hex_digit_def)

lemma hex_value_hex_digit: "n < 16 \<Longrightarrow> hex_value (hex_digit n) = Some n"
  by (auto simp add: hex_value_def hex_digit_def)

lemma not_space_hex_digit: "n < 16 \<Longrightarrow> \<not> is_space (hex_digit n)"
  by (auto simp add: is_space_def hex_digit_def)

lemma byte_split: "(of_nat (16 * (unat x div 16) + unat x mod 16) :: byte) = x"
  by simp

lemma nibbles: "unat (x :: byte) div 16 < 16" "unat x mod 16 < 16"
proof -
  have "unat x < 256" using unsigned_less [of x] by simp
  then show "unat x div 16 < 16" by simp
  show "unat x mod 16 < 16" by simp
qed

lemma bytes_hex_chars:
  "c \<in> set (bytes_hex b) \<Longrightarrow> (48 \<le> c \<and> c \<le> 57) \<or> (97 \<le> c \<and> c \<le> 102)"
proof -
  assume "c \<in> set (bytes_hex b)"
  then obtain x :: byte where "c = hex_digit (unat x div 16) \<or> c = hex_digit (unat x mod 16)"
    by (auto simp add: bytes_hex_def)
  then obtain n where "n < 16" "c = hex_digit n" using nibbles [of x] by blast
  then show ?thesis using hex_digit_range [of n] by simp
qed

lemma fromhex_bytes_hex: "fromhex (bytes_hex b) = Inr b"
proof (induction b)
  case Nil
  show ?case by (simp add: bytes_hex_def)
next
  case (Cons x b)
  have "bytes_hex (x # b) = hex_digit (unat x div 16) # hex_digit (unat x mod 16) # bytes_hex b"
    by (simp add: bytes_hex_def)
  then show ?case using Cons.IH nibbles [of x]
    by (simp add: hex_value_hex_digit not_space_hex_digit byte_split)
qed

lemma clean_bytes_hex: "clean (bytes_hex b) = bytes_hex b"
proof -
  have x: "120 \<notin> set (bytes_hex b)" "88 \<notin> set (bytes_hex b)" "32 \<notin> set (bytes_hex b)"
    "10 \<notin> set (bytes_hex b)" "13 \<notin> set (bytes_hex b)"
    using bytes_hex_chars [of _ b] by fastforce+
  have "remove_all [48, 120] (bytes_hex b) = bytes_hex b"
    using remove_all_absent [of 120 "[48, 120]"] x by simp
  moreover have "remove_all [48, 88] (bytes_hex b) = bytes_hex b"
    using remove_all_absent [of 88 "[48, 88]"] x by simp
  moreover have "remove_all [32] (bytes_hex b) = bytes_hex b"
    using remove_all_absent [of 32 "[32]"] x by simp
  moreover have "remove_all [10] (bytes_hex b) = bytes_hex b"
    using remove_all_absent [of 10 "[10]"] x by simp
  moreover have "remove_all [13] (bytes_hex b) = bytes_hex b"
    using remove_all_absent [of 13 "[13]"] x by simp
  ultimately show ?thesis by (simp add: clean_def)
qed

text \<open>
  Claim C5. For every byte sequence \<open>b\<close>, decoding the lowercase hex-pair string of \<open>b\<close>
  (what \<open>bytes.hex()\<close> gives: no separator, no prefix) returns \<open>b\<close>.
\<close>

theorem hex_round_trip: "parse_hex_string U (bytes_hex b) = Inr b"
proof -
  have "92 \<notin> set (bytes_hex b)" using bytes_hex_chars [of 92 b] by auto
  then have "\<not> contains esc (bytes_hex b)"
    using contains_absent [of 92 esc] by (simp add: esc_def)
  then show ?thesis
    by (simp add: parse_hex_string_def clean_bytes_hex fromhex_bytes_hex)
qed

theorem hex_round_trip_witness:
  "bytes_hex (chunk ''Hello'') = ascii ''48656c6c6f'' \<and>
   parse_hex_string plain_ucd (ascii ''48656c6c6f'') = Inr (chunk ''Hello'')"
proof -
  have "bytes_hex (chunk ''Hello'') = ascii ''48656c6c6f''"
    by (simp add: bytes_hex_def chunk_def ascii_def hex_digit_def)
  then show ?thesis using hex_round_trip [of plain_ucd "chunk ''Hello''"] by simp
qed

subsection \<open>Plain hex pairs and the fallback\<close>

lemma fromhex_error: "fromhex s = Inl e \<Longrightarrow> e = ValueError"
proof (induction s rule: fromhex.induct)
  case 1
  then show ?case by simp
next
  case (2 c)
  then show ?case by (simp split: if_splits)
next
  case (3 c d cs)
  then show ?case
    by (auto split: if_splits option.splits sum.splits)
qed

lemma fromhex_chars:
  "fromhex s = Inr bs \<Longrightarrow> c \<in> set s \<Longrightarrow> is_hex_digit c \<or> is_space c"
proof (induction s arbitrary: bs rule: fromhex.induct)
  case 1
  then show ?case by simp
next
  case (2 c')
  then show ?case by (simp split: if_splits)
next
  case (3 c' d cs)
  then show ?case
    by (auto simp add: is_hex_digit_def split: if_splits option.splits sum.splits)
qed

lemma hex_digit_not_space: "is_hex_digit c \<Longrightarrow> \<not> is_space c"
  by (auto simp add: is_hex_digit_def is_space_def hex_value_def split: if_splits)

lemma fromhex_digits_even:
  "fromhex s = Inr bs \<Longrightarrow> list_all is_hex_digit s \<Longrightarrow> length s = 2 * length bs"
proof (induction s arbitrary: bs rule: fromhex.induct)
  case 1
  then show ?case by simp
next
  case (2 c')
  then show ?case using hex_digit_not_space [of c'] by (auto split: if_splits)
next
  case (3 c' d cs)
  have ns: "\<not> is_space c'" using "3.prems"(2) hex_digit_not_space by simp
  show ?case using "3.prems" "3.IH"(2) ns
    by (auto split: option.splits sum.splits)
qed

lemma fromhex_digits_ok:
  "list_all is_hex_digit s \<Longrightarrow> even (length s) \<Longrightarrow> \<exists>bs. fromhex s = Inr bs"
proof (induction s rule: fromhex.induct)
  case 1
  then show ?case by simp
next
  case (2 c')
  then show ?case by simp
next
  case (3 c' d cs)
  have ns: "\<not> is_space c'" using "3.prems"(1) hex_digit_not_space by simp
  obtain h l where hl: "hex_value c' = Some h" "hex_value d = Some l"
    using "3.prems"(1) by (auto simp add: is_hex_digit_def)
  have "\<exists>bs. fromhex cs = Inr bs" using "3.IH"(2) [OF ns refl hl(1) hl(2)] "3.prems" by simp
  then show ?case using ns hl by auto
qed

lemma encode_utf8_valid: "valid_text s \<Longrightarrow> encode_utf8 s = Inr (concat (map utf8_char s))"
  by (auto simp add: encode_utf8_def valid_text_def list_ex_iff list_all_iff)

lemma parse_plain:
  assumes "\<not> contains esc s"
  shows "parse_hex_string U s =
     (case fromhex (clean s) of Inr b \<Rightarrow> Inr b | Inl e \<Rightarrow> encode_utf8 s)"
proof (cases "fromhex (clean s)")
  case (Inl e)
  then have "e = ValueError" by (rule fromhex_error)
  then show ?thesis using assms Inl by (simp add: parse_hex_string_def)
next
  case (Inr b)
  then show ?thesis using assms by (simp add: parse_hex_string_def)
qed

lemma clean_ex:
  "clean (ascii ''48 65 6c 6c 6f'') = ascii ''48656c6c6f''"
  "clean (ascii ''not-valid-hex!'') = ascii ''not-valid-hex!''"
  "clean (ascii ''0x486'') = ascii ''486''"
  "clean hex_tab = hex_tab"
  by (simp_all add: clean_def ascii_def hex_tab_def)

lemma clean_ex2:
  "clean (ascii ''abc'') = ascii ''abc''"
  by (simp_all add: clean_def ascii_def)

lemma ex_plain:
  "\<not> contains esc (ascii ''48 65 6c 6c 6f'')"
  "\<not> contains esc (ascii ''not-valid-hex!'')"
  "\<not> contains esc (ascii ''abc'')"
  "\<not> contains esc hex_tab"
  by (simp_all add: esc_def ascii_def hex_tab_def)

lemma ex_valid:
  "valid_text (ascii ''48 65 6c 6c 6f'')"
  "valid_text (ascii ''not-valid-hex!'')"
  "valid_text (ascii ''abc'')"
  by (simp_all add: valid_text_def ascii_def is_surrogate_def)

text \<open>
  Claim C4, as stated, fails. The cleaning removes blanks, CR and LF, but \<open>bytes.fromhex\<close>
  itself skips every ASCII whitespace character between two pairs: for the input made of
  \<open>48\<close>, a tab and \<open>65\<close>, the cleaned string has odd length and holds a character that
  is not a hex digit, and yet the result is the two bytes \<open>0x48 0x65\<close>, not the UTF-8
  encoding of the input.
\<close>

theorem tab_between_pairs_counterexample:
  "\<not> contains esc hex_tab \<and> odd (length (clean hex_tab)) \<and>
   9 \<in> set (clean hex_tab) \<and> \<not> is_hex_digit 9 \<and>
   parse_hex_string plain_ucd hex_tab = Inr [72, 101] \<and>
   encode_utf8 hex_tab = Inr [52, 56, 9, 54, 53]"
  by (simp add: parse_hex_string_def clean_ex ex_plain)
     (simp add: hex_tab_def ascii_def is_hex_digit_def hex_value_def is_space_def encode_utf8_def
        is_surrogate_def utf8_char_def)

text \<open>
  Claim C4, amended. For every input string of valid text that does not contain the
  substring \<open>\x\<close>, the decoder returns a byte sequence and does not raise: when
  \<open>bytes.fromhex\<close> accepts the cleaned string (hex digit pairs, with ASCII whitespace
  allowed between pairs) the result is what it decodes, in particular for an even number
  of hex digits; whenever it rejects the cleaned string, in particular when the cleaned
  string is an odd number of hex digits or holds a character that is neither a hex digit
  nor ASCII whitespace, the result is the original, unmodified input encoded as UTF-8.
  (Inputs that contain \<open>\x\<close> are the subject of claim C6.)
\<close>

theorem plain_hex_fallback:
  "valid_text s \<Longrightarrow> \<not> contains esc s \<Longrightarrow>
     (\<exists>bs. parse_hex_string U s = Inr bs) \<and>
     (\<forall>bs. fromhex (clean s) = Inr bs \<longrightarrow> parse_hex_string U s = Inr bs) \<and>
     ((\<forall>bs. fromhex (clean s) \<noteq> Inr bs) \<longrightarrow>
        parse_hex_string U s = Inr (concat (map utf8_char s))) \<and>
     (list_all is_hex_digit (clean s) \<and> even (length (clean s)) \<longrightarrow>
        (\<exists>bs. parse_hex_string U s = Inr bs \<and> length (clean s) = 2 * length bs)) \<and>
     (list_all is_hex_digit (clean s) \<and> odd (length (clean s)) \<longrightarrow>
        parse_hex_string U s = Inr (concat (map utf8_char s))) \<and>
     (list_ex (\<lambda>c. \<not> is_hex_digit c \<and> \<not> is_space c) (clean s) \<longrightarrow>
        parse_hex_string U s = Inr (concat (map utf8_char s)))"
proof -
  assume v: "valid_text s" and plain: "\<not> contains esc s"
  note p = parse_plain [OF plain, of U] and u = encode_utf8_valid [OF v]
  have a: "\<exists>bs. parse_hex_string U s = Inr bs"
    by (cases "fromhex (clean s)") (simp_all add: p u)
  have b: "parse_hex_string U s = Inr bs" if "fromhex (clean s) = Inr bs" for bs
    using that by (simp add: p)
  have c: "parse_hex_string U s = Inr (concat (map utf8_char s))" if "\<forall>bs. fromhex (clean s) \<noteq> Inr bs"
    using that by (cases "fromhex (clean s)") (simp_all add: p u)
  have d: "\<exists>bs. parse_hex_string U s = Inr bs \<and> length (clean s) = 2 * length bs"
    if "list_all is_hex_digit (clean s)" "even (length (clean s))"
  proof -
    from fromhex_digits_ok [OF that] obtain bs where bs: "fromhex (clean s) = Inr bs" by blast
    then show ?thesis using fromhex_digits_even [OF bs that(1)] by (simp add: p)
  qed
  have e: "parse_hex_string U s = Inr (concat (map utf8_char s))"
    if "list_all is_hex_digit (clean s)" "odd (length (clean s))"
  proof -
    have "\<forall>bs. fromhex (clean s) \<noteq> Inr bs"
      using fromhex_digits_even [OF _ that(1)] that(2) by fastforce
    then show ?thesis by (rule c)
  qed
  have f: "parse_hex_string U s = Inr (concat (map utf8_char s))"
    if "list_ex (\<lambda>c. \<not> is_hex_digit c \<and> \<not> is_space c) (clean s)"
  proof -
    have "\<forall>bs. fromhex (clean s) \<noteq> Inr bs"
      using fromhex_chars that by (fastforce simp add: list_ex_iff)
    then show ?thesis by (rule c)
  qed
  show ?thesis using a b c d e f by blast
qed

theorem plain_hex_fallback_witness:
  "valid_text (ascii ''48 65 6c 6c 6f'') \<and> \<not> contains esc (ascii ''48 65 6c 6c 6f'') \<and>
   list_all is_hex_digit (clean (ascii ''48 65 6c 6c 6f'')) \<and>
   even (length (clean (ascii ''48 65 6c 6c 6f''))) \<and>
   fromhex (clean (ascii ''48 65 6c 6c 6f'')) = Inr (chunk ''Hello'') \<and>
   parse_hex_string plain_ucd (ascii ''48 65 6c 6c 6f'') = Inr (chunk ''Hello'') \<and>
   valid_text (ascii ''not-valid-hex!'') \<and> \<not> contains esc (ascii ''not-valid-hex!'') \<and>
   list_ex (\<lambda>c. \<not> is_hex_digit c \<and> \<not> is_space c) (clean (ascii ''not-valid-hex!'')) \<and>
   parse_hex_string plain_ucd (ascii ''not-valid-hex!'') = Inr (chunk ''not-valid-hex!'') \<and>
   valid_text (ascii ''abc'') \<and> \<not> contains esc (ascii ''abc'') \<and>
   list_all is_hex_digit (clean (ascii ''abc'')) \<and> odd (length (clean (ascii ''abc''))) \<and>
   (\<forall>bs. fromhex (clean (ascii ''abc'')) \<noteq> Inr bs) \<and>
   parse_hex_string plain_ucd (ascii ''abc'') = Inr (chunk ''abc'')"
proof -
  have h1: "list_all is_hex_digit (clean (ascii ''48 65 6c 6c 6f''))"
    "even (length (clean (ascii ''48 65 6c 6c 6f'')))"
    "fromhex (clean (ascii ''48 65 6c 6c 6f'')) = Inr (chunk ''Hello'')"
    unfolding clean_ex
    by (simp_all add: ascii_def is_hex_digit_def hex_value_def is_space_def chunk_def)
  have h2: "list_ex (\<lambda>c. \<not> is_hex_digit c \<and> \<not> is_space c) (clean (ascii ''not-valid-hex!''))"
    unfolding clean_ex
    by (simp add: ascii_def is_hex_digit_def hex_value_def is_space_def)
  have h3: "list_all is_hex_digit (clean (ascii ''abc''))" "odd (length (clean (ascii ''abc'')))"
    "\<forall>bs. fromhex (clean (ascii ''abc'')) \<noteq> Inr bs"
    unfolding clean_ex2
    by (simp_all add: ascii_def is_hex_digit_def hex_value_def is_space_def)
  have u: "concat (map utf8_char (ascii ''not-valid-hex!'')) = chunk ''not-valid-hex!''"
    "concat (map utf8_char (ascii ''abc'')) = chunk ''abc''"
    by (simp_all add: ascii_def utf8_char_def chunk_def)
  show ?thesis
    using plain_hex_fallback [OF ex_valid(1) ex_plain(1), of plain_ucd]
      plain_hex_fallback [OF ex_valid(2) ex_plain(2), of plain_ucd]
      plain_hex_fallback [OF ex_valid(3) ex_plain(3), of plain_ucd]
      h1 h2 h3 ex_valid ex_plain
    by (simp add: u)
qed

subsection \<open>Escaped input\<close>

lemma to_ascii_low: "c < 127 \<Longrightarrow> to_ascii U c = c"
  by (simp add: to_ascii_def)

lemma py_int16_ex:
  "py_int16 U (ascii ''41'') = Inr 65"
  "py_int16 U (ascii ''ZZ'') = Inl ValueError"
  "py_int16 U (ascii ''+1'') = Inr 1"
  by (simp_all add: py_int16_def ascii_def to_ascii_low is_space_def skip_sign_def skip_prefix_def
      hex_value_def)

text \<open>The two examples of the specification for the escaped syntax.\<close>

lemma escape_examples:
  "parse_hex_string U (esc @ ascii ''48'' @ esc @ ascii ''65'' @ esc @ ascii ''6C'' @ esc @ ascii ''6C'' @ esc @ ascii ''6F'') = Inr (chunk ''Hello'')"
  "parse_hex_string U (ascii ''Hello'' @ esc @ ascii ''0D'' @ esc @ ascii ''0A'') = Inr (chunk ''Hello'' @ [13, 10])"
  by (simp_all add: parse_hex_string_def esc_def ascii_def is_esc_def is_hex_digit_def hex_value_def
      py_int16_def to_ascii_low is_space_def skip_sign_def skip_prefix_def bytearray_append_def
      encode_utf8_def is_surrogate_def utf8_char_def chunk_def)

text \<open>
  Claim C6 does not hold of the code. The second loop takes every part of the split that
  starts with \<open>\x\<close> and has four characters for a matched escape, but a literal fragment
  can have this shape too. For the input \<open>\x41\xZZ\<close> the split gives the literal fragment
  \<open>\xZZ\<close>, whose UTF-8 bytes the claim expects after the byte \<open>0x41\<close>; the code calls
  \<open>int('ZZ', 16)\<close> and raises \<open>ValueError\<close>. For \<open>\x41\x+1\<close> it reads the literal
  fragment \<open>\x+1\<close> as the byte \<open>0x01\<close>.
\<close>

theorem literal_escape_fragment_misread:
  "split_esc [] (esc @ ascii ''41'' @ esc @ ascii ''ZZ'') = [[], esc @ ascii ''41'', esc @ ascii ''ZZ''] \<and>
   encode_utf8 (esc @ ascii ''ZZ'') = Inr [92, 120, 90, 90] \<and>
   parse_hex_string U (esc @ ascii ''41'' @ esc @ ascii ''ZZ'') = Inl ValueError \<and>
   parse_hex_string U (esc @ ascii ''41'' @ esc @ ascii ''+1'') = Inr [65, 1]"
proof -
  have a: "split_esc [] (esc @ ascii ''41'' @ esc @ ascii ''ZZ'') =
      [[], esc @ ascii ''41'', esc @ ascii ''ZZ'']"
    by (simp add: esc_def ascii_def is_esc_def is_hex_digit_def hex_value_def)
  have b: "encode_utf8 (esc @ ascii ''ZZ'') = Inr [92, 120, 90, 90]"
    by (simp add: encode_utf8_def esc_def ascii_def is_surrogate_def utf8_char_def)
  have c: "parse_hex_string U (esc @ ascii ''41'' @ esc @ ascii ''ZZ'') = Inl ValueError"
    by (simp add: parse_hex_string_def esc_def ascii_def is_esc_def is_hex_digit_def hex_value_def
        py_int16_def to_ascii_low is_space_def skip_sign_def skip_prefix_def bytearray_append_def)
  have d: "parse_hex_string U (esc @ ascii ''41'' @ esc @ ascii ''+1'') = Inr [65, 1]"
    by (simp add: parse_hex_string_def esc_def ascii_def is_esc_def is_hex_digit_def hex_value_def
        py_int16_def to_ascii_low is_space_def skip_sign_def skip_prefix_def bytearray_append_def)
  show ?thesis using a b c d by blast
qed

end
